theory Spec2Isabelle
  imports Main
begin

text \<open>
  A shallow embedding of \<open>imagefinder.py\<close>: the perceptual-hash duplicate finder with its
  greedy clusterer, the deletion of the duplicates and the command line. A Python string
  is a list of characters with code points below 256 (the type \<open>char\<close>), a Python integer
  an \<open>int\<close>, an exception the left summand of a sum type, and printing appends a message
  to the list \<open>stdout\<close>.
\<close>

section \<open>Data model\<close>

type_synonym path = string

text \<open>
  The exceptions the program can meet. \<open>IncompatibleFingerprintError\<close> is the name the
  specification gives to the failure of the distance metric; the others are Python's.
\<close>

datatype error =
    TypeError
  | ValueError
  | OSError
  | FileNotFoundError
  | PermissionError
  | EOFError
  | IncompatibleFingerprintError

section \<open>The duplicate clusterer (find_duplicate_images, lines 63-82)\<close>

text \<open>
  \<open>duplicates = defaultdict(list)\<close>: a dictionary in insertion order whose values are
  lists. \<open>duplicates[k].append(v)\<close> creates the entry \<open>k\<close> with an empty list when it is
  missing (at the end of the dictionary) and appends \<open>v\<close> to the entry's list.
\<close>

type_synonym 'k clusters = "('k \<times> ('k \<times> int) list) list"

fun dd_append :: "'k \<Rightarrow> 'v \<Rightarrow> ('k \<times> 'v list) list \<Rightarrow> ('k \<times> 'v list) list" where
  "dd_append k v [] = [(k, [v])]"
| "dd_append k v ((k', vs) # d) =
     (if k = k' then (k', vs @ [v]) # d else (k', vs) # dd_append k v d)"

record 'k cstate =
  duplicates :: "'k clusters"
  processed :: "'k set"

text \<open>
  \<open>hamming_distance(hash1, hash2)\<close> returns \<open>hash1 - hash2\<close>. The subtraction is the one of
  the hash objects of the imagehash library, which is not part of the repository: it is
  the parameter \<open>sub\<close>, an operation that returns an integer or raises.
\<close>

definition hamming_distance :: "('h \<Rightarrow> 'h \<Rightarrow> error + int) \<Rightarrow> 'h \<Rightarrow> 'h \<Rightarrow> error + int" where
  "hamming_distance sub hash1 hash2 = sub hash1 hash2"

text \<open>
  The inner loop \<open>for file2, hash2 in file_list[i + 1:]\<close> (lines 72-80). An exception of
  \<open>hamming_distance\<close> is not caught: it ends the function.
\<close>

fun inner_loop ::
  "('h \<Rightarrow> 'h \<Rightarrow> error + int) \<Rightarrow> int \<Rightarrow> 'k \<Rightarrow> 'h \<Rightarrow> ('k \<times> 'h) list \<Rightarrow> 'k cstate \<Rightarrow> error + 'k cstate" where
  "inner_loop sub similarity_threshold file1 hash1 [] s = Inr s"
| "inner_loop sub similarity_threshold file1 hash1 ((file2, hash2) # rest) s =
     (if file2 \<in> processed s then inner_loop sub similarity_threshold file1 hash1 rest s
      else case hamming_distance sub hash1 hash2 of
        Inl e \<Rightarrow> Inl e
      | Inr distance \<Rightarrow>
          if distance \<le> similarity_threshold
          then inner_loop sub similarity_threshold file1 hash1 rest
                 (s\<lparr>duplicates := dd_append file1 (file2, distance) (duplicates s),
                    processed := insert file2 (processed s)\<rparr>)
          else inner_loop sub similarity_threshold file1 hash1 rest s)"

text \<open>
  The outer loop \<open>for i, (file1, hash1) in enumerate(file_list)\<close> (lines 68-80): the list
  left after the head is \<open>file_list[i + 1:]\<close>.
\<close>

fun outer_loop ::
  "('h \<Rightarrow> 'h \<Rightarrow> error + int) \<Rightarrow> int \<Rightarrow> ('k \<times> 'h) list \<Rightarrow> 'k cstate \<Rightarrow> error + 'k cstate" where
  "outer_loop sub similarity_threshold [] s = Inr s"
| "outer_loop sub similarity_threshold ((file1, hash1) # rest) s =
     (if file1 \<in> processed s then outer_loop sub similarity_threshold rest s
      else case inner_loop sub similarity_threshold file1 hash1 rest s of
        Inl e \<Rightarrow> Inl e
      | Inr s' \<Rightarrow> outer_loop sub similarity_threshold rest s')"

text \<open>Lines 63-82: both start empty; the dictionary \<open>duplicates\<close> is returned.\<close>

definition cluster ::
  "('h \<Rightarrow> 'h \<Rightarrow> error + int) \<Rightarrow> int \<Rightarrow> ('k \<times> 'h) list \<Rightarrow> error + 'k clusters" where
  "cluster sub similarity_threshold file_list =
     (case outer_loop sub similarity_threshold file_list \<lparr>duplicates = [], processed = {}\<rparr> of
        Inl e \<Rightarrow> Inl e
      | Inr s \<Rightarrow> Inr (duplicates s))"


section \<open>Python's string operations\<close>

text \<open>
  \<open>str.strip()\<close> removes from both ends the characters for which \<open>str.isspace()\<close> holds:
  among the code points below 256 these are 9 to 13, 28 to 32, 133 and 160.
\<close>

definition is_space :: "char \<Rightarrow> bool" where
  "is_space c =
     (let n = (of_char c :: nat)
      in (9 \<le> n \<and> n \<le> 13) \<or> (28 \<le> n \<and> n \<le> 32) \<or> n = 133 \<or> n = 160)"

definition py_strip :: "string \<Rightarrow> string" where
  "py_strip s = rev (dropWhile is_space (rev (dropWhile is_space s)))"

text \<open>
  \<open>str.lower()\<close>: the code points below 256 with a lowercase form are 65 to 90, 192 to 214
  and 216 to 222; the lowercase form is 32 above.
\<close>

definition lower_char :: "char \<Rightarrow> char" where
  "lower_char c =
     (let n = (of_char c :: nat)
      in if (65 \<le> n \<and> n \<le> 90) \<or> (192 \<le> n \<and> n \<le> 214) \<or> (216 \<le> n \<and> n \<le> 222)
         then char_of (n + 32) else c)"

definition py_lower :: "string \<Rightarrow> string" where
  "py_lower s = map lower_char s"

definition is_digit :: "char \<Rightarrow> bool" where
  "is_digit c = (let n = (of_char c :: nat) in 48 \<le> n \<and> n \<le> 57)"

definition digit_value :: "char \<Rightarrow> nat" where
  "digit_value c = of_char c - 48"

text \<open>
  The digits of a decimal literal: one underscore is allowed between two digits. The flag
  says that the character before was a digit.
\<close>

fun digits_value :: "string \<Rightarrow> bool \<Rightarrow> nat \<Rightarrow> nat option" where
  "digits_value [] after_digit acc = (if after_digit then Some acc else None)"
| "digits_value (c # cs) after_digit acc =
     (if is_digit c then digits_value cs True (10 * acc + digit_value c)
      else if c = CHR ''_'' \<and> after_digit then digits_value cs False acc
      else None)"

text \<open>
  \<open>int(arg)\<close> on a string. The whitespace it removes from both ends is not that of
  \<open>strip\<close>: the code points 9 to 13, 32, 133 and 160, but not 28 to 31. Then come an
  optional sign and the digits; anything else raises ValueError, and so does a literal of
  more than 4300 digits (the interpreter's default limit, underscores not counted).
\<close>

definition is_int_space :: "char \<Rightarrow> bool" where
  "is_int_space c =
     (let n = (of_char c :: nat) in (9 \<le> n \<and> n \<le> 13) \<or> n = 32 \<or> n = 133 \<or> n = 160)"

definition int_strip :: "string \<Rightarrow> string" where
  "int_strip s = rev (dropWhile is_int_space (rev (dropWhile is_int_space s)))"

definition int_max_str_digits :: nat where
  "int_max_str_digits = 4300"

definition py_int :: "string \<Rightarrow> error + int" where
  "py_int arg =
     (let s = int_strip arg in
      if int_max_str_digits < length (filter is_digit s) then Inl ValueError
      else case s of
        [] \<Rightarrow> Inl ValueError
      | c # cs \<Rightarrow>
          if c = CHR ''-'' then
            (case digits_value cs False 0 of None \<Rightarrow> Inl ValueError | Some n \<Rightarrow> Inr (- int n))
          else if c = CHR ''+'' then
            (case digits_value cs False 0 of None \<Rightarrow> Inl ValueError | Some n \<Rightarrow> Inr (int n))
          else
            (case digits_value (c # cs) False 0 of None \<Rightarrow> Inl ValueError | Some n \<Rightarrow> Inr (int n)))"

text \<open>
  \<open>Path(file).suffix\<close>, for paths with the separator \<open>/\<close>. The name of a path is its
  last component that is neither empty nor a single dot (the empty string when there is
  none); for a directory entry, as \<open>os.walk\<close> yields them, it is the entry itself. The
  suffix is the text of the name from its last dot on, when that dot is neither the first
  nor the last character of the name.
\<close>

fun split_sep :: "char \<Rightarrow> string \<Rightarrow> string list" where
  "split_sep c [] = [[]]"
| "split_sep c (x # xs) =
     (if x = c then [] # split_sep c xs
      else case split_sep c xs of [] \<Rightarrow> [[x]] | y # ys \<Rightarrow> (x # y) # ys)"

definition path_name :: "string \<Rightarrow> string" where
  "path_name file =
     (case filter (\<lambda>x. x \<noteq> [] \<and> x \<noteq> ''.'') (split_sep (CHR ''/'') file) of
        [] \<Rightarrow> []
      | x # xs \<Rightarrow> last (x # xs))"

definition rfind :: "char \<Rightarrow> string \<Rightarrow> nat option" where
  "rfind c s = (case filter (\<lambda>i. s ! i = c) (rev [0..<length s]) of [] \<Rightarrow> None | i # _ \<Rightarrow> Some i)"

definition path_suffix :: "string \<Rightarrow> string" where
  "path_suffix file =
     (let name = path_name file in
      case rfind (CHR ''.'') name of
        None \<Rightarrow> []
      | Some i \<Rightarrow> if 0 < i \<and> i < length name - 1 then drop i name else [])"

section \<open>The world: files, standard output, standard input\<close>

text \<open>
  One constructor for each message the program prints, with the values it formats into
  the text. \<open>TotalSpaceFreed\<close> carries \<open>total_size_freed\<close> in bytes; the program prints it
  divided by \<open>1024*1024\<close> with two decimals. \<open>Prompt\<close> is the prompt of \<open>input\<close>,
  \<open>EqualsRule\<close> the line of equals signs after an empty line, \<open>EqualsLine\<close> the one
  without it, and \<open>Usage\<close> the lines of the usage text.
\<close>

datatype msg =
    ErrorProcessing path error
  | FoundImageFiles nat
  | ProcessingProgress nat nat
  | SuccessfullyProcessed nat
  | NoDuplicatesFound
  | FoundDuplicates nat nat
  | DuplicateGroupsHeader
  | DashRule
  | OriginalLine path
  | OriginalSize nat
  | DuplicatesCount nat
  | DupeLine path
  | DupeSize nat
  | SimilarityDistance int
  | EqualsRule
  | EqualsLine
  | Prompt nat
  | DeletionCancelled
  | Deleted path
  | ErrorDeleting path error
  | SuccessfullyDeleted nat
  | TotalSpaceFreed nat
  | Usage
  | FolderDoesNotExist path
  | NotADirectory path
  | InvalidThresholdWarning string
  | ScanningFolder path
  | SimilarityThresholdLine int
  | ModeLine bool

record file_info =
  st_size :: nat
  removable :: bool

record world =
  files :: "path \<rightharpoonup> file_info"
  stdout :: "msg list"
  stdin :: string

definition print :: "msg \<Rightarrow> world \<Rightarrow> world" where
  "print m w = w\<lparr>stdout := stdout w @ [m]\<rparr>"

text \<open>
  \<open>stdin\<close> holds the characters that standard input still has to deliver.
  \<open>input(prompt)\<close> writes the prompt and reads one line: the characters before the first
  line end, or all of them when there is none. A line end is a line feed, a carriage
  return, or a carriage return followed by a line feed (standard input is read with
  universal newlines); it is consumed with the line and is not part of it. With
  nothing left to read \<open>input\<close> raises EOFError.
\<close>

definition is_line_end :: "char \<Rightarrow> bool" where
  "is_line_end c = (c = CHR 0x0A \<or> c = CHR 0x0D)"

definition first_line :: "string \<Rightarrow> string" where
  "first_line s = takeWhile (\<lambda>c. \<not> is_line_end c) s"

definition after_first_line :: "string \<Rightarrow> string" where
  "after_first_line s =
     (case dropWhile (\<lambda>c. \<not> is_line_end c) s of
        [] \<Rightarrow> []
      | c # rest \<Rightarrow>
          if c = CHR 0x0D then (case rest of [] \<Rightarrow> [] | d # rest' \<Rightarrow> if d = CHR 0x0A then rest' else rest)
          else rest)"

definition input :: "msg \<Rightarrow> world \<Rightarrow> (error + string) \<times> world" where
  "input prompt w =
     (if stdin w = [] then (Inl EOFError, print prompt w)
      else (Inr (first_line (stdin w)), (print prompt w)\<lparr>stdin := after_first_line (stdin w)\<rparr>))"

text \<open>
  \<open>os.path.getsize\<close> and \<open>os.remove\<close>: both raise on a missing file; removing a file that
  may not be removed raises PermissionError.
\<close>

definition os_path_getsize :: "(path \<rightharpoonup> file_info) \<Rightarrow> path \<Rightarrow> error + nat" where
  "os_path_getsize fs p = (case fs p of None \<Rightarrow> Inl FileNotFoundError | Some f \<Rightarrow> Inr (st_size f))"

definition os_remove :: "(path \<rightharpoonup> file_info) \<Rightarrow> path \<Rightarrow> error + (path \<rightharpoonup> file_info)" where
  "os_remove fs p =
     (case fs p of
        None \<Rightarrow> Inl FileNotFoundError
      | Some f \<Rightarrow> if removable f then Inr (fs(p := None)) else Inl PermissionError)"

text \<open>
  What the program reads from outside and never changes: the directory tree and the
  libraries PIL and imagehash, which are not part of the repository.
\<close>

record ('img, 'h) env =
  os_walk :: "path \<Rightarrow> (path \<times> string list \<times> string list) list"
  os_path_join :: "path \<Rightarrow> string \<Rightarrow> path"
  os_path_exists :: "path \<Rightarrow> bool"
  os_path_isdir :: "path \<Rightarrow> bool"
  image_open :: "path \<Rightarrow> error + 'img"
  image_mode :: "'img \<Rightarrow> string"
  image_convert :: "'img \<Rightarrow> string \<Rightarrow> error + 'img"
  average_hash :: "'img \<Rightarrow> nat \<Rightarrow> error + 'h"
  hash_sub :: "'h \<Rightarrow> 'h \<Rightarrow> error + int"

section \<open>get_image_hash (lines 9-21)\<close>

text \<open>The body of the \<open>try\<close> block.\<close>

definition image_hash_try :: "('img, 'h) env \<Rightarrow> path \<Rightarrow> nat \<Rightarrow> error + 'h" where
  "image_hash_try ev image_path hash_size =
     (case image_open ev image_path of
        Inl e \<Rightarrow> Inl e
      | Inr img \<Rightarrow>
          (case (if image_mode ev img \<noteq> ''RGB'' then image_convert ev img ''RGB'' else Inr img) of
             Inl e \<Rightarrow> Inl e
           | Inr img' \<Rightarrow> average_hash ev img' hash_size))"

definition get_image_hash :: "('img, 'h) env \<Rightarrow> path \<Rightarrow> nat \<Rightarrow> world \<Rightarrow> 'h option \<times> world" where
  "get_image_hash ev image_path hash_size w =
     (case image_hash_try ev image_path hash_size of
        Inr h \<Rightarrow> (Some h, w)
      | Inl e \<Rightarrow> (None, print (ErrorProcessing image_path e) w))"

section \<open>find_duplicate_images (lines 29-82)\<close>

definition image_extensions :: "string set" where
  "image_extensions = {''.jpg'', ''.jpeg'', ''.png'', ''.bmp'', ''.gif'', ''.tiff'', ''.webp''}"

text \<open>Lines 45-49: the walk over the folder.\<close>

definition collect_image_files :: "('img, 'h) env \<Rightarrow> path \<Rightarrow> path list" where
  "collect_image_files ev folder_path =
     concat (map (\<lambda>(root, dirs, files).
        map (os_path_join ev root)
          (filter (\<lambda>file. py_lower (path_suffix file) \<in> image_extensions) files))
       (os_walk ev folder_path))"

text \<open>
  \<open>file_hashes[image_path] = img_hash\<close> on a dictionary in insertion order: a key that is
  present keeps its place and gets the new hash, a new key goes to the end.
\<close>

fun dict_set :: "'k \<Rightarrow> 'v \<Rightarrow> ('k \<times> 'v) list \<Rightarrow> ('k \<times> 'v) list" where
  "dict_set k v [] = [(k, v)]"
| "dict_set k v ((k', v') # d) = (if k = k' then (k', v) # d else (k', v') # dict_set k v d)"

text \<open>
  Lines 54-59, \<open>for i, image_path in enumerate(image_files, 1)\<close>; \<open>n\<close> is
  \<open>len(image_files)\<close>. \<open>get_image_hash\<close> is called with its default \<open>hash_size=8\<close>.
\<close>

fun extract_loop ::
  "('img, 'h) env \<Rightarrow> nat \<Rightarrow> nat \<Rightarrow> path list \<Rightarrow> (path \<times> 'h) list \<Rightarrow> world \<Rightarrow> (path \<times> 'h) list \<times> world" where
  "extract_loop ev n i [] file_hashes w = (file_hashes, w)"
| "extract_loop ev n i (image_path # rest) file_hashes w =
     (let w1 = (if i mod 10 = 0 then print (ProcessingProgress i n) w else w) in
      case get_image_hash ev image_path 8 w1 of
        (None, w2) \<Rightarrow> extract_loop ev n (i + 1) rest file_hashes w2
      | (Some img_hash, w2) \<Rightarrow> extract_loop ev n (i + 1) rest (dict_set image_path img_hash file_hashes) w2)"

text \<open>Lines 51-61: the fingerprint table of a list of image files.\<close>

definition extract_hashes :: "('img, 'h) env \<Rightarrow> path list \<Rightarrow> world \<Rightarrow> (path \<times> 'h) list \<times> world" where
  "extract_hashes ev image_files w =
     (case extract_loop ev (length image_files) 1 image_files []
             (print (FoundImageFiles (length image_files)) w) of
        (file_hashes, w1) \<Rightarrow> (file_hashes, print (SuccessfullyProcessed (length file_hashes)) w1))"

definition find_duplicate_images ::
  "('img, 'h) env \<Rightarrow> path \<Rightarrow> int \<Rightarrow> world \<Rightarrow> (error + path clusters) \<times> world" where
  "find_duplicate_images ev folder_path similarity_threshold w =
     (case extract_hashes ev (collect_image_files ev folder_path) w of
        (file_hashes, w1) \<Rightarrow> (cluster (hash_sub ev) similarity_threshold file_hashes, w1))"

section \<open>delete_duplicates (lines 90-150)\<close>

definition get_file_size :: "(path \<rightharpoonup> file_info) \<Rightarrow> path \<Rightarrow> error + nat" where
  "get_file_size fs file_path = os_path_getsize fs file_path"

text \<open>
  Lines 117-121, the listing of one group's duplicates. \<open>get_file_size\<close> is outside any
  \<open>try\<close> here: its exception ends \<open>delete_duplicates\<close>.
\<close>

fun list_dupes :: "(path \<times> int) list \<Rightarrow> path list \<Rightarrow> world \<Rightarrow> (error + path list) \<times> world" where
  "list_dupes [] files_to_delete w = (Inr files_to_delete, w)"
| "list_dupes ((dupe_path, distance) # rest) files_to_delete w =
     (let w1 = print (DupeLine dupe_path) w in
      case get_file_size (files w1) dupe_path of
        Inl e \<Rightarrow> (Inl e, w1)
      | Inr sz \<Rightarrow>
          list_dupes rest (files_to_delete @ [dupe_path])
            (print (SimilarityDistance distance) (print (DupeSize sz) w1)))"

text \<open>Lines 112-121, \<open>for original, dupes in duplicates.items()\<close>.\<close>

fun list_groups :: "path clusters \<Rightarrow> path list \<Rightarrow> world \<Rightarrow> (error + path list) \<times> world" where
  "list_groups [] files_to_delete w = (Inr files_to_delete, w)"
| "list_groups ((original, dupes) # rest) files_to_delete w =
     (let w1 = print (OriginalLine original) w in
      case get_file_size (files w1) original of
        Inl e \<Rightarrow> (Inl e, w1)
      | Inr sz \<Rightarrow>
          (case list_dupes dupes files_to_delete
                  (print (DuplicatesCount (length dupes)) (print (OriginalSize sz) w1)) of
             (Inl e, w2) \<Rightarrow> (Inl e, w2)
           | (Inr files_to_delete', w2) \<Rightarrow> list_groups rest files_to_delete' w2))"

text \<open>Lines 138-146: every exception of the loop body is caught and printed.\<close>

fun delete_loop :: "path list \<Rightarrow> nat \<Rightarrow> nat \<Rightarrow> world \<Rightarrow> nat \<times> nat \<times> world" where
  "delete_loop [] deleted_count total_size_freed w = (deleted_count, total_size_freed, w)"
| "delete_loop (file_path # rest) deleted_count total_size_freed w =
     (case get_file_size (files w) file_path of
        Inl e \<Rightarrow> delete_loop rest deleted_count total_size_freed (print (ErrorDeleting file_path e) w)
      | Inr file_size \<Rightarrow>
          (case os_remove (files w) file_path of
             Inl e \<Rightarrow>
               delete_loop rest deleted_count total_size_freed (print (ErrorDeleting file_path e) w)
           | Inr fs' \<Rightarrow>
               delete_loop rest (deleted_count + 1) (total_size_freed + file_size)
                 (print (Deleted file_path) (w\<lparr>files := fs'\<rparr>))))"

text \<open>Lines 135-150: the deletions and the summary.\<close>

definition delete_files :: "path list \<Rightarrow> world \<Rightarrow> world" where
  "delete_files files_to_delete w =
     (case delete_loop files_to_delete 0 0 w of
        (deleted_count, total_size_freed, w1) \<Rightarrow>
          print (TotalSpaceFreed total_size_freed)
            (print (SuccessfullyDeleted deleted_count) (print EqualsRule w1)))"

text \<open>
  The result is the exception that left the function, if any, and the world after it.
\<close>

definition delete_duplicates :: "path clusters \<Rightarrow> bool \<Rightarrow> world \<Rightarrow> error option \<times> world" where
  "delete_duplicates dups interactive w =
     (let total_duplicates = sum_list (map (\<lambda>(original, dupes). length dupes) dups) in
      if total_duplicates = 0 then (None, print NoDuplicatesFound w)
      else
        case list_groups dups []
               (print DashRule (print DuplicateGroupsHeader
                  (print (FoundDuplicates total_duplicates (length dups)) w))) of
          (Inl e, w1) \<Rightarrow> (Some e, w1)
        | (Inr files_to_delete, w1) \<Rightarrow>
            (let w2 = print EqualsRule w1 in
             if interactive then
               (case input (Prompt (length files_to_delete)) w2 of
                  (Inl e, w3) \<Rightarrow> (Some e, w3)
                | (Inr line, w3) \<Rightarrow>
                    (let response = py_lower (py_strip line) in
                     if response \<notin> set [''yes'', ''y''] then (None, print DeletionCancelled w3)
                     else (None, delete_files files_to_delete w3)))
             else (None, delete_files files_to_delete w2)))"

section \<open>main (lines 153-203)\<close>

datatype outcome = Returned | SystemExit int | Raised error

text \<open>Lines 185-194, \<open>for arg in sys.argv[2:]\<close>.\<close>

fun parse_args :: "string list \<Rightarrow> int \<Rightarrow> bool \<Rightarrow> world \<Rightarrow> int \<times> bool \<times> world" where
  "parse_args [] similarity_threshold interactive w = (similarity_threshold, interactive, w)"
| "parse_args (arg # rest) similarity_threshold interactive w =
     (if arg = ''--auto'' then parse_args rest similarity_threshold False w
      else case py_int arg of
        Inr n \<Rightarrow> parse_args rest n interactive w
      | Inl e \<Rightarrow>
          parse_args rest similarity_threshold interactive (print (InvalidThresholdWarning arg) w))"

definition main :: "('img, 'h) env \<Rightarrow> string list \<Rightarrow> world \<Rightarrow> outcome \<times> world" where
  "main ev argv w =
     (if length argv < 2 then (SystemExit 1, print Usage w)
      else
        let folder_path = argv ! 1 in
        if \<not> os_path_exists ev folder_path then (SystemExit 1, print (FolderDoesNotExist folder_path) w)
        else if \<not> os_path_isdir ev folder_path then (SystemExit 1, print (NotADirectory folder_path) w)
        else
          case parse_args (drop 2 argv) 5 True w of
            (similarity_threshold, interactive, w1) \<Rightarrow>
              (let w2 = print EqualsLine (print (ModeLine interactive)
                          (print (SimilarityThresholdLine similarity_threshold)
                             (print (ScanningFolder folder_path) w1))) in
               case find_duplicate_images ev folder_path similarity_threshold w2 of
                 (Inl e, w3) \<Rightarrow> (Raised e, w3)
               | (Inr dups, w3) \<Rightarrow>
                   (case delete_duplicates dups interactive w3 of
                      (Some e, w4) \<Rightarrow> (Raised e, w4)
                    | (None, w4) \<Rightarrow> (Returned, w4))))"

section \<open>The distance of the imagehash library\<close>

type_synonym fingerprint = "bool list"

text \<open>
  Modelled from the spec: the subtraction of two hash objects, which \<open>hamming_distance\<close>
  delegates to, belongs to the imagehash library and is not among the sources. After
  section 4.2 of the specification: for two fingerprints of equal bit-length it is the
  number of bit positions where they differ, and it fails with
  \<open>IncompatibleFingerprintError\<close> when the bit-lengths differ.
\<close>

definition imagehash_sub :: "fingerprint \<Rightarrow> fingerprint \<Rightarrow> error + int" where
  "imagehash_sub hash1 hash2 =
     (if length hash1 \<noteq> length hash2 then Inl IncompatibleFingerprintError
      else Inr (int (length (filter (\<lambda>(x, y). x \<noteq> y) (zip hash1 hash2)))))"

section \<open>Notions used in the statements\<close>

text \<open>The originals of the clusters, and the duplicates of all clusters, in order.\<close>

definition originals :: "'k clusters \<Rightarrow> 'k list" where
  "originals d = map fst d"

definition dup_paths :: "'k clusters \<Rightarrow> 'k list" where
  "dup_paths d = concat (map (\<lambda>group. map fst (snd group)) d)"

text \<open>
  Every record is in at most one cluster, at most once, and not both as an original and
  as a duplicate: the originals followed by all the duplicates have no repetition.
\<close>

definition well_formed :: "'k clusters \<Rightarrow> bool" where
  "well_formed d = distinct (originals d @ dup_paths d)"

text \<open>The invariant of the two loops of the clusterer.\<close>

definition cinv :: "'k cstate \<Rightarrow> bool" where
  "cinv s \<longleftrightarrow> distinct (originals (duplicates s)) \<and> distinct (dup_paths (duplicates s))
     \<and> set (dup_paths (duplicates s)) = processed s
     \<and> set (originals (duplicates s)) \<inter> processed s = {}"

text \<open>
  The records and the decode failures that a list of image files gives: the files whose
  \<open>try\<close> block returns a hash, with that hash, and the files where it raises, with the
  exception. \<open>reported_failures\<close> reads the failures that were printed.
\<close>

definition decoded :: "('img, 'h) env \<Rightarrow> path list \<Rightarrow> (path \<times> 'h) list" where
  "decoded ev image_files =
     concat (map (\<lambda>p. case image_hash_try ev p 8 of Inr h \<Rightarrow> [(p, h)] | Inl e \<Rightarrow> []) image_files)"

definition failures :: "('img, 'h) env \<Rightarrow> path list \<Rightarrow> (path \<times> error) list" where
  "failures ev image_files =
     concat (map (\<lambda>p. case image_hash_try ev p 8 of Inr h \<Rightarrow> [] | Inl e \<Rightarrow> [(p, e)]) image_files)"

definition reported_failures :: "msg list \<Rightarrow> (path \<times> error) list" where
  "reported_failures out =
     concat (map (\<lambda>m. case m of ErrorProcessing p e \<Rightarrow> [(p, e)] | _ \<Rightarrow> []) out)"

text \<open>
  For the deletion: a file can be removed when it exists and may be removed; the files
  that were actually removed are those of the list that existed before and are gone
  after; \<open>size_in\<close> is the size of a file in a given state of the file system;
  \<open>report_path\<close> is the file a line of the deletion loop speaks of, and
  \<open>deleted_paths\<close> are the files of the \<open>Deleted\<close> lines.
\<close>

definition removed_files :: "(path \<rightharpoonup> file_info) \<Rightarrow> (path \<rightharpoonup> file_info) \<Rightarrow> path list \<Rightarrow> path list" where
  "removed_files before after files_to_delete =
     filter (\<lambda>p. before p \<noteq> None \<and> after p = None) (remdups files_to_delete)"

definition size_in :: "(path \<rightharpoonup> file_info) \<Rightarrow> path \<Rightarrow> nat" where
  "size_in fs p = (case fs p of None \<Rightarrow> 0 | Some f \<Rightarrow> st_size f)"

definition report_path :: "msg \<Rightarrow> path option" where
  "report_path m = (case m of Deleted p \<Rightarrow> Some p | ErrorDeleting p e \<Rightarrow> Some p | _ \<Rightarrow> None)"

definition deleted_paths :: "msg list \<Rightarrow> path list" where
  "deleted_paths out = concat (map (\<lambda>m. case m of Deleted p \<Rightarrow> [p] | _ \<Rightarrow> []) out)"

definition can_remove :: "(path \<rightharpoonup> file_info) \<Rightarrow> path \<Rightarrow> bool" where
  "can_remove fs p = (case fs p of None \<Rightarrow> False | Some f \<Rightarrow> removable f)"

section \<open>Concrete inputs\<close>

text \<open>
  A distance table for three hashes 0, 1 and 2 with the distances 3 (0 to 1), 8 (0 to 2)
  and 6 (1 to 2).
\<close>

definition scenario_distance :: "nat \<Rightarrow> nat \<Rightarrow> error + int" where
  "scenario_distance x y =
     Inr (if x = y then 0 else if x + y = 1 then 3 else if x + y = 2 then 8 else 6)"

text \<open>
  A folder \<open>p\<close> with five image files, one of them unreadable, and a text file. An image
  is represented by its fingerprint.
\<close>

definition example_images :: "(path \<times> fingerprint) list" where
  "example_images =
     [(''p/a.jpg'', [False, False, False, False]),
      (''p/b.PNG'', [True, False, False, False]),
      (''p/c.gif'', [True, True, True, True]),
      (''p/d.bmp'', [True, True, True, False])]"

definition example_env :: "(fingerprint, fingerprint) env" where
  "example_env =
     \<lparr>os_walk = (\<lambda>folder. if folder = ''p''
         then [(''p'', [], [''a.jpg'', ''b.PNG'', ''notes.txt'', ''bad.jpg'', ''c.gif'', ''d.bmp''])]
         else []),
      os_path_join = (\<lambda>root file. root @ ''/'' @ file),
      os_path_exists = (\<lambda>p. p = ''p''),
      os_path_isdir = (\<lambda>p. p = ''p''),
      image_open = (\<lambda>p. case map_of example_images p of None \<Rightarrow> Inl OSError | Some img \<Rightarrow> Inr img),
      image_mode = (\<lambda>img. ''RGB''),
      image_convert = (\<lambda>img mode. Inr img),
      average_hash = (\<lambda>img hash_size. Inr img),
      hash_sub = imagehash_sub\<rparr>"

definition example_files :: "(path \<times> file_info) list" where
  "example_files =
     [(''p/a.jpg'', \<lparr>st_size = 100, removable = True\<rparr>),
      (''p/b.PNG'', \<lparr>st_size = 70, removable = True\<rparr>),
      (''p/c.gif'', \<lparr>st_size = 30, removable = True\<rparr>),
      (''p/d.bmp'', \<lparr>st_size = 50, removable = False\<rparr>)]"

definition example_world :: "string \<Rightarrow> world" where
  "example_world typed = \<lparr>files = map_of example_files, stdout = [], stdin = typed\<rparr>"

text \<open>
  A deletion plan over the files above: a file listed twice, a file that does not exist
  and a file that may not be removed.
\<close>

definition example_deletions :: "path list" where
  "example_deletions = [''p/b.PNG'', ''p/gone.jpg'', ''p/d.bmp'', ''p/c.gif'', ''p/b.PNG'']"

section \<open>The clusterer keeps its clusters apart\<close>

lemma originals_dd_append:
  "originals (dd_append k v d) = (if k \<in> set (originals d) then originals d else originals d @ [k])"
  by (induction d) (force simp: originals_def)+

lemma dup_paths_Nil: "dup_paths [] = []"
  by (simp add: dup_paths_def)

lemma dup_paths_Cons: "dup_paths ((k, vs) # d) = map fst vs @ dup_paths d"
  by (simp add: dup_paths_def)

lemma set_dup_paths_dd_append:
  "set (dup_paths (dd_append k (p, x) d)) = insert p (set (dup_paths d))"
proof (induction d)
  case Nil
  show ?case by (simp add: dup_paths_Nil dup_paths_Cons)
next
  case (Cons a d)
  obtain k' vs where a: "a = (k', vs)" by (cases a)
  show ?case using Cons.IH unfolding a by (auto simp: dup_paths_Cons)
qed

lemma distinct_dup_paths_dd_append:
  "distinct (dup_paths (dd_append k (p, x) d)) \<longleftrightarrow> distinct (dup_paths d) \<and> p \<notin> set (dup_paths d)"
proof (induction d)
  case Nil
  show ?case by (simp add: dup_paths_Nil dup_paths_Cons)
next
  case (Cons a d)
  obtain k' vs where a: "a = (k', vs)" by (cases a)
  have s: "set (dup_paths (dd_append k (p, x) d)) = insert p (set (dup_paths d))"
    by (rule set_dup_paths_dd_append)
  show ?case
  proof (cases "k = k'")
    case True
    then show ?thesis unfolding a by (auto simp: dup_paths_Cons)
  next
    case False
    then show ?thesis unfolding a using Cons.IH s by (auto simp: dup_paths_Cons)
  qed
qed

lemma inner_loop_inv:
  "inner_loop sub t file1 hash1 rest s = Inr s' \<Longrightarrow> cinv s \<Longrightarrow> file1 \<notin> processed s \<Longrightarrow>
   file1 \<notin> fst ` set rest \<Longrightarrow> set (originals (duplicates s)) \<inter> fst ` set rest = {} \<Longrightarrow>
   cinv s' \<and> file1 \<notin> processed s' \<and> set (originals (duplicates s')) \<subseteq> insert file1 (set (originals (duplicates s)))"
proof (induction rest arbitrary: s)
  case Nil
  then show ?case by auto
next
  case (Cons a rest)
  obtain file2 hash2 where a: "a = (file2, hash2)" by (cases a)
  show ?case
  proof (cases "file2 \<in> processed s")
    case True
    with Cons.prems a have "inner_loop sub t file1 hash1 rest s = Inr s'" by simp
    from Cons.IH[OF this] Cons.prems show ?thesis by auto
  next
    case False
    then obtain distance where d: "hamming_distance sub hash1 hash2 = Inr distance"
      using Cons.prems(1) a by (auto split: sum.splits)
    show ?thesis
    proof (cases "distance \<le> t")
      case le: True
      let ?s1 = "s\<lparr>duplicates := dd_append file1 (file2, distance) (duplicates s),
                    processed := insert file2 (processed s)\<rparr>"
      have run: "inner_loop sub t file1 hash1 rest ?s1 = Inr s'"
        using Cons.prems(1) a False d le by simp
      have ne: "file2 \<noteq> file1" using Cons.prems(4) a by auto
      have nk: "file2 \<notin> set (originals (duplicates s))" using Cons.prems(5) a by auto
      have inv1: "cinv ?s1"
        using Cons.prems(2,3) False ne nk
        by (auto simp: cinv_def originals_dd_append set_dup_paths_dd_append distinct_dup_paths_dd_append)
      have a1: "file1 \<notin> processed ?s1" using Cons.prems(3) ne by auto
      have a2: "file1 \<notin> fst ` set rest" using Cons.prems(4) by auto
      have a3: "set (originals (duplicates ?s1)) \<inter> fst ` set rest = {}"
        using Cons.prems(4,5) by (auto simp: originals_dd_append)
      from Cons.IH[OF run inv1 a1 a2 a3] show ?thesis
        by (auto simp: originals_dd_append split: if_splits)
    next
      case gt: False
      have "inner_loop sub t file1 hash1 rest s = Inr s'"
        using Cons.prems(1) a False d gt by simp
      from Cons.IH[OF this] Cons.prems show ?thesis by auto
    qed
  qed
qed

lemma outer_loop_inv:
  "outer_loop sub t fl s = Inr s' \<Longrightarrow> cinv s \<Longrightarrow> distinct (map fst fl) \<Longrightarrow>
   set (originals (duplicates s)) \<inter> fst ` set fl = {} \<Longrightarrow> cinv s'"
proof (induction fl arbitrary: s)
  case Nil
  then show ?case by simp
next
  case (Cons a rest)
  obtain file1 hash1 where a: "a = (file1, hash1)" by (cases a)
  show ?case
  proof (cases "file1 \<in> processed s")
    case True
    with Cons.prems a have "outer_loop sub t rest s = Inr s'" by simp
    from Cons.IH[OF this] Cons.prems show ?thesis by auto
  next
    case False
    then obtain s1 where i: "inner_loop sub t file1 hash1 rest s = Inr s1"
      and o: "outer_loop sub t rest s1 = Inr s'"
      using Cons.prems(1) a by (auto split: sum.splits)
    have n1: "file1 \<notin> fst ` set rest" using Cons.prems(3) a by auto
    have n2: "set (originals (duplicates s)) \<inter> fst ` set rest = {}" using Cons.prems(4) by auto
    from inner_loop_inv[OF i Cons.prems(2) False n1 n2]
    have c1: "cinv s1" and sub1: "set (originals (duplicates s1)) \<subseteq> insert file1 (set (originals (duplicates s)))"
      by auto
    have "set (originals (duplicates s1)) \<inter> fst ` set rest = {}" using sub1 n1 n2 by auto
    from Cons.IH[OF o c1 _ this] Cons.prems(3) show ?thesis by simp
  qed
qed

lemma cluster_well_formed:
  assumes dist: "distinct (map fst file_list)" and c: "cluster sub t file_list = Inr d"
  shows "well_formed d"
proof -
  let ?s0 = "\<lparr>duplicates = [], processed = {}\<rparr> :: 'a cstate"
  from c obtain s where o: "outer_loop sub t file_list ?s0 = Inr s" and d: "d = duplicates s"
    by (auto simp: cluster_def split: sum.splits)
  have "cinv ?s0" by (simp add: cinv_def originals_def dup_paths_def)
  from outer_loop_inv[OF o this dist] have "cinv s" by (simp add: originals_def)
  then show ?thesis using d by (auto simp: cinv_def well_formed_def)
qed

text \<open>
  The clusterer returns its clusters whenever the distance of any two fingerprints of the
  list is defined, as it is for fingerprints of one bit-length.
\<close>

lemma inner_loop_returns:
  "\<forall>(p, h) \<in> set rest. \<exists>d. sub hash1 h = Inr d \<Longrightarrow>
   \<exists>s'. inner_loop sub t file1 hash1 rest s = Inr s'"
proof (induction rest arbitrary: s)
  case Nil
  show ?case by simp
next
  case (Cons a rest)
  obtain file2 hash2 where a: "a = (file2, hash2)" by (cases a)
  from Cons.prems a obtain d where d: "sub hash1 hash2 = Inr d" by auto
  have r: "\<forall>(p, h) \<in> set rest. \<exists>d. sub hash1 h = Inr d" using Cons.prems by simp
  show ?case unfolding a using d Cons.IH[OF r] by (simp add: hamming_distance_def)
qed

lemma outer_loop_returns:
  "\<forall>(p, h) \<in> set fl. \<forall>(p', h') \<in> set fl. \<exists>d. sub h h' = Inr d \<Longrightarrow>
   \<exists>s'. outer_loop sub t fl s = Inr s'"
proof (induction fl arbitrary: s)
  case Nil
  show ?case by simp
next
  case (Cons a rest)
  obtain file1 hash1 where a: "a = (file1, hash1)" by (cases a)
  have r: "\<forall>(p, h) \<in> set rest. \<forall>(p', h') \<in> set rest. \<exists>d. sub h h' = Inr d"
    using Cons.prems by auto
  have "\<forall>(p, h) \<in> set rest. \<exists>d. sub hash1 h = Inr d" using Cons.prems a by auto
  from inner_loop_returns[where sub = sub and ?hash1.0 = hash1 and rest = rest, OF this] obtain s1 where
    i: "inner_loop sub t file1 hash1 rest s = Inr s1" by blast
  show ?case unfolding a using i Cons.IH[OF r] by simp
qed

lemma cluster_returns:
  assumes "\<forall>(p, h) \<in> set file_list. \<forall>(p', h') \<in> set file_list. \<exists>d. sub h h' = Inr d"
  shows "\<exists>d. cluster sub t file_list = Inr d"
proof -
  from outer_loop_returns[where sub = sub and fl = file_list, OF assms] obtain s' where
    "outer_loop sub t file_list \<lparr>duplicates = [], processed = {}\<rparr> = Inr s'" by blast
  then show ?thesis by (simp add: cluster_def)
qed

lemma cluster_returns_equal_lengths:
  assumes "\<forall>(p, h) \<in> set file_list. length h = n"
  shows "\<exists>d. cluster imagehash_sub t file_list = Inr d"
proof (rule cluster_returns, clarify)
  fix p h p' h'
  assume "(p, h) \<in> set file_list" and "(p', h') \<in> set file_list"
  then have "length h = n" and "length h' = n" using assms by blast+
  then have "length h = length h'" by simp
  then show "\<exists>d. imagehash_sub h h' = Inr d" by (simp add: imagehash_sub_def)
qed

section \<open>The fingerprint table\<close>

lemma dict_set_new: "k \<notin> fst ` set d \<Longrightarrow> dict_set k v d = d @ [(k, v)]"
  by (induction d) auto

lemma decoded_Cons:
  "decoded ev (p # ps) = (case image_hash_try ev p 8 of Inr h \<Rightarrow> [(p, h)] | Inl e \<Rightarrow> []) @ decoded ev ps"
  by (simp add: decoded_def)

lemma failures_Cons:
  "failures ev (p # ps) = (case image_hash_try ev p 8 of Inr h \<Rightarrow> [] | Inl e \<Rightarrow> [(p, e)]) @ failures ev ps"
  by (simp add: failures_def)

lemma reported_failures_append:
  "reported_failures (xs @ ys) = reported_failures xs @ reported_failures ys"
  by (simp add: reported_failures_def)

lemma fst_decoded: "fst ` set (decoded ev ps) \<subseteq> set ps"
  by (induction ps) (auto simp: decoded_Cons decoded_def split: sum.splits)

lemma extract_loop_result:
  "distinct rest \<Longrightarrow> fst ` set fh0 \<inter> set rest = {} \<Longrightarrow> extract_loop ev n i rest fh0 w = (fh, w') \<Longrightarrow>
   fh = fh0 @ decoded ev rest \<and>
   reported_failures (stdout w') = reported_failures (stdout w) @ failures ev rest \<and>
   files w' = files w \<and> stdin w' = stdin w"
proof (induction rest arbitrary: fh0 w i)
  case Nil
  then show ?case by (simp add: decoded_def failures_def)
next
  case (Cons p rest)
  let ?w1 = "if i mod 10 = 0 then print (ProcessingProgress i n) w else w"
  have w1: "reported_failures (stdout ?w1) = reported_failures (stdout w)"
    "files ?w1 = files w" "stdin ?w1 = stdin w"
    by (auto simp: print_def reported_failures_def)
  show ?case
  proof (cases "image_hash_try ev p 8")
    case (Inl e)
    let ?w2 = "print (ErrorProcessing p e) ?w1"
    have run: "extract_loop ev n (i + 1) rest fh0 ?w2 = (fh, w')"
      using Cons.prems(3) Inl by (simp add: get_image_hash_def Let_def)
    have "fst ` set fh0 \<inter> set rest = {}" using Cons.prems(2) by auto
    from Cons.IH[OF _ this run] Cons.prems(1)
    have "fh = fh0 @ decoded ev rest \<and>
      reported_failures (stdout w') = reported_failures (stdout ?w2) @ failures ev rest \<and>
      files w' = files ?w2 \<and> stdin w' = stdin ?w2" by simp
    moreover have "reported_failures (stdout ?w2) = reported_failures (stdout w) @ [(p, e)]"
      "files ?w2 = files w" "stdin ?w2 = stdin w"
      using w1 by (auto simp: print_def reported_failures_def)
    ultimately show ?thesis using Inl by (simp add: decoded_Cons failures_Cons)
  next
    case (Inr h)
    have new: "dict_set p h fh0 = fh0 @ [(p, h)]"
      using Cons.prems(2) by (intro dict_set_new) auto
    have run: "extract_loop ev n (i + 1) rest (fh0 @ [(p, h)]) ?w1 = (fh, w')"
      using Cons.prems(3) Inr new by (simp add: get_image_hash_def Let_def)
    have "fst ` set (fh0 @ [(p, h)]) \<inter> set rest = {}" using Cons.prems(1,2) by auto
    from Cons.IH[OF _ this run] Cons.prems(1)
    have "fh = (fh0 @ [(p, h)]) @ decoded ev rest \<and>
      reported_failures (stdout w') = reported_failures (stdout ?w1) @ failures ev rest \<and>
      files w' = files ?w1 \<and> stdin w' = stdin ?w1" by simp
    then show ?thesis using Inr w1 by (simp add: decoded_Cons failures_Cons)
  qed
qed

text \<open>The keys of the table are distinct whatever the list of files is.\<close>

lemma fst_dict_set: "fst ` set (dict_set k v d) = insert k (fst ` set d)"
proof (induction d)
  case Nil
  show ?case by simp
next
  case (Cons a d)
  obtain k' v' where a: "a = (k', v')" by (cases a)
  show ?case unfolding a using Cons.IH by (cases "k = k'") auto
qed

lemma distinct_dict_set: "distinct (map fst d) \<Longrightarrow> distinct (map fst (dict_set k v d))"
proof (induction d)
  case Nil
  show ?case by simp
next
  case (Cons a d)
  obtain k' v' where a: "a = (k', v')" by (cases a)
  have "fst ` set (dict_set k v d) = insert k (fst ` set d)" by (rule fst_dict_set)
  with Cons show ?case unfolding a by auto
qed

lemma extract_loop_distinct:
  "distinct (map fst fh0) \<Longrightarrow> extract_loop ev n i rest fh0 w = (fh, w') \<Longrightarrow> distinct (map fst fh)"
proof (induction rest arbitrary: fh0 w i)
  case Nil
  then show ?case by simp
next
  case (Cons p rest)
  show ?case
  proof (cases "image_hash_try ev p 8")
    case (Inl e)
    with Cons.prems(2) obtain w2 where "extract_loop ev n (i + 1) rest fh0 w2 = (fh, w')"
      by (simp add: get_image_hash_def Let_def)
    from Cons.IH[OF Cons.prems(1) this] show ?thesis .
  next
    case (Inr h)
    with Cons.prems(2) obtain w2 where "extract_loop ev n (i + 1) rest (dict_set p h fh0) w2 = (fh, w')"
      by (simp add: get_image_hash_def Let_def)
    from Cons.IH[OF distinct_dict_set[OF Cons.prems(1)] this] show ?thesis .
  qed
qed

lemma extract_hashes_distinct:
  "extract_hashes ev image_files w = (fh, w') \<Longrightarrow> distinct (map fst fh)"
  by (auto simp: extract_hashes_def split: prod.splits dest: extract_loop_distinct[rotated])

lemma length_decoded_failures:
  "length (decoded ev ps) + length (failures ev ps) = length ps"
  by (induction ps) (auto simp: decoded_Cons failures_Cons decoded_def failures_def split: sum.splits)

section \<open>The deletion loop\<close>

lemma delete_loop_result:
  "delete_loop ftd c t w = (c', t', w') \<Longrightarrow>
   files w' = (\<lambda>p. if p \<in> set ftd \<and> can_remove (files w) p then None else files w p)
   \<and> c' = c + card {p \<in> set ftd. can_remove (files w) p}
   \<and> t' = t + sum (size_in (files w)) {p \<in> set ftd. can_remove (files w) p}
   \<and> stdin w' = stdin w
   \<and> (\<exists>report. stdout w' = stdout w @ report \<and> map report_path report = map Some ftd
        \<and> set (deleted_paths report) = {p \<in> set ftd. can_remove (files w) p})"
proof (induction ftd arbitrary: c t w)
  case Nil
  then show ?case by (simp add: deleted_paths_def)
next
  case (Cons p rest)
  let ?R = "\<lambda>fs ps. {q \<in> set ps. can_remove fs q}"
  show ?case
  proof (cases "can_remove (files w) p")
    case True
    then obtain f where f: "files w p = Some f" "removable f"
      by (auto simp: can_remove_def split: option.splits)
    let ?fs1 = "(files w)(p := None)"
    let ?w1 = "print (Deleted p) (w\<lparr>files := ?fs1\<rparr>)"
    have run: "delete_loop rest (c + 1) (t + st_size f) ?w1 = (c', t', w')"
      using Cons.prems f by (simp add: get_file_size_def os_path_getsize_def os_remove_def)
    have fw1: "files ?w1 = ?fs1" "stdin ?w1 = stdin w" "stdout ?w1 = stdout w @ [Deleted p]"
      by (simp_all add: print_def)
    have cr: "\<And>q. can_remove ?fs1 q \<longleftrightarrow> q \<noteq> p \<and> can_remove (files w) q"
      by (simp add: can_remove_def)
    have R1: "?R ?fs1 rest = ?R (files w) rest - {p}" using cr by auto
    have R: "?R (files w) (p # rest) = insert p (?R ?fs1 rest)" using True R1 by auto
    have pn: "p \<notin> ?R ?fs1 rest" using R1 by simp
    have fin: "finite (?R ?fs1 rest)" by simp
    have sz: "\<And>q. q \<in> ?R ?fs1 rest \<Longrightarrow> size_in ?fs1 q = size_in (files w) q"
      using cr by (auto simp: size_in_def)
    from Cons.IH[OF run, unfolded fw1] obtain report where
      i1: "files w' = (\<lambda>q. if q \<in> set rest \<and> can_remove ?fs1 q then None else ?fs1 q)"
      and i2: "c' = c + 1 + card (?R ?fs1 rest)"
      and i3: "t' = t + st_size f + sum (size_in ?fs1) (?R ?fs1 rest)"
      and i4: "stdin w' = stdin w"
      and i5: "stdout w' = (stdout w @ [Deleted p]) @ report" "map report_path report = map Some rest"
        "set (deleted_paths report) = ?R ?fs1 rest"
      by blast
    have g1: "files w' = (\<lambda>q. if q \<in> set (p # rest) \<and> can_remove (files w) q then None else files w q)"
      unfolding i1 using True cr by (auto simp: fun_eq_iff)
    have g2: "c' = c + card (?R (files w) (p # rest))"
      unfolding i2 R using pn fin by simp
    have "sum (size_in ?fs1) (?R ?fs1 rest) = sum (size_in (files w)) (?R ?fs1 rest)"
      using sz by (intro sum.cong) auto
    moreover have "size_in (files w) p = st_size f" using f by (simp add: size_in_def)
    ultimately have g3: "t' = t + sum (size_in (files w)) (?R (files w) (p # rest))"
      unfolding i3 R using pn fin by simp
    have g5: "stdout w' = stdout w @ (Deleted p # report)"
      "map report_path (Deleted p # report) = map Some (p # rest)"
      "set (deleted_paths (Deleted p # report)) = ?R (files w) (p # rest)"
      using i5 R by (simp_all add: report_path_def deleted_paths_def)
    from g1 g2 g3 i4 g5 show ?thesis by blast
  next
    case False
    obtain e where e: "(case get_file_size (files w) p of Inl e \<Rightarrow> Inl e | Inr sz \<Rightarrow> (case os_remove (files w) p of Inl e \<Rightarrow> Inl e | Inr fs' \<Rightarrow> Inr fs')) = Inl e"
      using False by (auto simp: can_remove_def get_file_size_def os_path_getsize_def os_remove_def split: option.splits)
    let ?w1 = "print (ErrorDeleting p e) w"
    have run: "delete_loop rest c t ?w1 = (c', t', w')"
      using Cons.prems e by (auto split: sum.splits)
    have fw1: "files ?w1 = files w" "stdin ?w1 = stdin w" "stdout ?w1 = stdout w @ [ErrorDeleting p e]"
      by (simp_all add: print_def)
    have R: "?R (files w) (p # rest) = ?R (files w) rest" using False by auto
    from Cons.IH[OF run, unfolded fw1] obtain report where
      i1: "files w' = (\<lambda>q. if q \<in> set rest \<and> can_remove (files w) q then None else files w q)"
      and i2: "c' = c + card (?R (files w) rest)"
      and i3: "t' = t + sum (size_in (files w)) (?R (files w) rest)"
      and i4: "stdin w' = stdin w"
      and i5: "stdout w' = (stdout w @ [ErrorDeleting p e]) @ report" "map report_path report = map Some rest"
        "set (deleted_paths report) = ?R (files w) rest"
      by blast
    have g1: "files w' = (\<lambda>q. if q \<in> set (p # rest) \<and> can_remove (files w) q then None else files w q)"
      unfolding i1 using False by (auto simp: fun_eq_iff)
    have g5: "stdout w' = stdout w @ (ErrorDeleting p e # report)"
      "map report_path (ErrorDeleting p e # report) = map Some (p # rest)"
      "set (deleted_paths (ErrorDeleting p e # report)) = ?R (files w) (p # rest)"
      using i5 R by (simp_all add: report_path_def deleted_paths_def)
    from g1 i2 i3 i4 g5 show ?thesis unfolding R by blast
  qed
qed


section \<open>The listing before the deletion\<close>






section \<open>A threshold that covers every distance from the first record\<close>

lemma fold_dd_append_same:
  "fold (\<lambda>(p, h) d. dd_append k (p, f h) d) xs ((k, vs) # d0) = (k, vs @ map (\<lambda>(p, h). (p, f h)) xs) # d0"
  by (induction xs arbitrary: vs) (auto)

lemma fold_dd_append_empty:
  "xs \<noteq> [] \<Longrightarrow> fold (\<lambda>(p, h) d. dd_append k (p, f h) d) xs [] = [(k, map (\<lambda>(p, h). (p, f h)) xs)]"
  by (cases xs) (auto simp: fold_dd_append_same)

lemma inner_loop_absorbs_all:
  "distinct (map fst rest) \<Longrightarrow> fst ` set rest \<inter> processed s = {} \<Longrightarrow>
   \<forall>(p, h) \<in> set rest. sub hash1 h = Inr (dist h) \<and> dist h \<le> t \<Longrightarrow>
   inner_loop sub t file1 hash1 rest s =
     Inr (s\<lparr>duplicates := fold (\<lambda>(p, h) d. dd_append file1 (p, dist h) d) rest (duplicates s),
            processed := processed s \<union> fst ` set rest\<rparr>)"
proof (induction rest arbitrary: s)
  case Nil
  show ?case by simp
next
  case (Cons a rest)
  obtain file2 hash2 where a: "a = (file2, hash2)" by (cases a)
  let ?s1 = "s\<lparr>duplicates := dd_append file1 (file2, dist hash2) (duplicates s),
                processed := insert file2 (processed s)\<rparr>"
  have np: "file2 \<notin> processed s" using Cons.prems(2) a by auto
  have d: "sub hash1 hash2 = Inr (dist hash2)" "dist hash2 \<le> t" using Cons.prems(3) a by auto
  have step: "inner_loop sub t file1 hash1 (a # rest) s = inner_loop sub t file1 hash1 rest ?s1"
    using np d a by (simp add: hamming_distance_def)
  have p1: "distinct (map fst rest)" using Cons.prems(1) by simp
  have p2: "fst ` set rest \<inter> processed ?s1 = {}" using Cons.prems(1,2) a by auto
  have p3: "\<forall>(p, h) \<in> set rest. sub hash1 h = Inr (dist h) \<and> dist h \<le> t" using Cons.prems(3) by simp
  show ?case unfolding step Cons.IH[OF p1 p2 p3] using a by simp
qed

lemma outer_loop_all_processed:
  "fst ` set fl \<subseteq> processed s \<Longrightarrow> outer_loop sub t fl s = Inr s"
  by (induction fl) auto

lemma cluster_absorbs_all:
  assumes "distinct (map fst ((file1, hash1) # rest))"
    and "\<forall>(p, h) \<in> set rest. sub hash1 h = Inr (dist h) \<and> dist h \<le> t"
  shows "cluster sub t ((file1, hash1) # rest) =
           Inr (if rest = [] then [] else [(file1, map (\<lambda>(p, h). (p, dist h)) rest)])"
proof -
  let ?s0 = "\<lparr>duplicates = [], processed = {}\<rparr> :: 'a cstate"
  let ?s1 = "?s0\<lparr>duplicates := fold (\<lambda>(p, h) d. dd_append file1 (p, dist h) d) rest (duplicates ?s0),
            processed := processed ?s0 \<union> fst ` set rest\<rparr>"
  have i: "inner_loop sub t file1 hash1 rest ?s0 = Inr ?s1"
    using assms by (intro inner_loop_absorbs_all) auto
  have o: "outer_loop sub t rest ?s1 = Inr ?s1"
    by (rule outer_loop_all_processed) simp
  have "cluster sub t ((file1, hash1) # rest) = Inr (duplicates ?s1)"
    using i o by (simp add: cluster_def)
  then show ?thesis by (cases "rest = []") (simp_all add: fold_dd_append_empty)
qed

section \<open>Counting the differing positions\<close>

lemma differing_count:
  fixes a b :: "'a list"
  assumes "length a = length b"
  shows "length (filter (\<lambda>(x, y). x \<noteq> y) (zip a b)) = card {i. i < length a \<and> a ! i \<noteq> b ! i}"
proof -
  have "length (filter (\<lambda>(x, y). x \<noteq> y) (zip a b))
      = card {i. i < length (zip a b) \<and> (\<lambda>(x, y). x \<noteq> y) (zip a b ! i)}"
    by (rule length_filter_conv_card)
  also have "{i. i < length (zip a b) \<and> (\<lambda>(x, y). x \<noteq> y) (zip a b ! i)}
      = {i. i < length a \<and> a ! i \<noteq> b ! i}"
    using assms by auto
  finally show ?thesis .
qed

lemma imagehash_sub_card:
  "length a = length b \<Longrightarrow> imagehash_sub a b = Inr (int (card {i. i < length a \<and> a ! i \<noteq> b ! i}))"
  using differing_count [of a b] by (simp add: imagehash_sub_def)

lemma differing_triangle:
  assumes "length a = length b" and "length b = length c"
  shows "card {i. i < length a \<and> a ! i \<noteq> c ! i}
       \<le> card {i. i < length a \<and> a ! i \<noteq> b ! i} + card {i. i < length b \<and> b ! i \<noteq> c ! i}"
proof -
  let ?ac = "{i. i < length a \<and> a ! i \<noteq> c ! i}"
  let ?ab = "{i. i < length a \<and> a ! i \<noteq> b ! i}"
  let ?bc = "{i. i < length b \<and> b ! i \<noteq> c ! i}"
  have "?ac \<subseteq> ?ab \<union> ?bc" using assms by auto
  moreover have "finite (?ab \<union> ?bc)" by simp
  ultimately have "card ?ac \<le> card (?ab \<union> ?bc)" by (rule card_mono[rotated])
  also have "\<dots> \<le> card ?ab + card ?bc" by (rule card_Un_le)
  finally show ?thesis .
qed

lemma differing_sym:
  "length a = length b \<Longrightarrow> {i. i < length a \<and> a ! i \<noteq> b ! i} = {i. i < length b \<and> b ! i \<noteq> a ! i}"
  by auto

lemma hamming_parity:
  fixes a b c :: "bool list"
  assumes "length a = length b" and "length b = length c"
  shows "even (length (filter (\<lambda>(x, y). x \<noteq> y) (zip a b))
            + length (filter (\<lambda>(x, y). x \<noteq> y) (zip b c))
            + length (filter (\<lambda>(x, y). x \<noteq> y) (zip a c)))"
  using assms by (induction a b c rule: list_induct3) auto

text \<open>
  The three distances of the scenario of C1 add up to an odd number, so no three
  fingerprints of equal bit-length realise them with this distance.
\<close>

lemma scenario_not_hamming:
  assumes "length a = length b" and "length b = length c"
  shows "\<not> (imagehash_sub a b = Inr 3 \<and> imagehash_sub a c = Inr 8 \<and> imagehash_sub b c = Inr 6)"
proof
  assume h: "imagehash_sub a b = Inr 3 \<and> imagehash_sub a c = Inr 8 \<and> imagehash_sub b c = Inr 6"
  let ?n = "\<lambda>x y :: fingerprint. length (filter (\<lambda>(x, y). x \<noteq> y) (zip x y))"
  from h assms have "int (?n a b) = 3" "int (?n a c) = 8" "int (?n b c) = 6"
    by (auto simp: imagehash_sub_def)
  then have "?n a b = 3" "?n a c = 8" "?n b c = 6" by linarith+
  with hamming_parity[OF assms] show False by simp
qed

section \<open>Claims about the clusterer\<close>

text \<open>
  C1. Three records enumerated in the order A, B, C, with the distances d(A,B) = 3 and
  d(A,C) = 8 and the threshold 5: the clusterer returns exactly one cluster, with the
  original A and the duplicates [(B, 3)], and C is in no cluster, neither as an original
  nor as a duplicate. Nothing is assumed about the comparison of B with C (6 in the
  scenario): B is claimed when its turn comes, so that comparison is never made, and the
  result is the same whatever it would give, an exception included.
\<close>

theorem scenario_three_records:
  assumes "a \<noteq> b" and "a \<noteq> c" and "b \<noteq> c"
    and "sub ha hb = Inr 3" and "sub ha hc = Inr 8"
  shows "cluster sub 5 [(a, ha), (b, hb), (c, hc)] = Inr [(a, [(b, 3)])]
    \<and> c \<notin> set (originals [(a, [(b, 3 :: int)])]) \<union> set (dup_paths [(a, [(b, 3 :: int)])])"
  using assms by (simp add: cluster_def hamming_distance_def originals_def dup_paths_def)

theorem scenario_three_records_witness:
  "scenario_distance 0 1 = Inr 3 \<and> scenario_distance 0 2 = Inr 8 \<and> scenario_distance 1 2 = Inr 6
   \<and> cluster scenario_distance 5 [(''A'', 0), (''B'', 1), (''C'', 2)] = Inr [(''A'', [(''B'', 3)])]
   \<and> ''C'' \<notin> set (originals [(''A'', [(''B'', 3 :: int)])]) \<union> set (dup_paths [(''A'', [(''B'', 3 :: int)])])"
  using scenario_three_records [of "''A''" "''B''" "''C''" scenario_distance 0 1 2]
  by (simp add: scenario_distance_def)

text \<open>
  C2. Whatever the files of the folder, the decoder and the threshold are, when
  \<open>find_duplicate_images\<close> returns its clusters, every record is in at most one of
  them, at most once, and never both as an original and as a duplicate: the list of the
  originals followed by the duplicates of all clusters has no repetition. In particular
  no original is a duplicate of another cluster.
\<close>

theorem clusters_disjoint:
  assumes "fst (find_duplicate_images ev folder_path similarity_threshold w) = Inr d"
  shows "well_formed d"
proof -
  obtain fh w1 where e: "extract_hashes ev (collect_image_files ev folder_path) w = (fh, w1)"
    by (cases "extract_hashes ev (collect_image_files ev folder_path) w")
  with assms have c: "cluster (hash_sub ev) similarity_threshold fh = Inr d"
    by (simp add: find_duplicate_images_def)
  from cluster_well_formed[OF extract_hashes_distinct[OF e] c] show ?thesis .
qed

theorem clusters_disjoint_witness:
  "fst (find_duplicate_images example_env ''p'' 1 (example_world []))
     = Inr [(''p/a.jpg'', [(''p/b.PNG'', 1)]), (''p/c.gif'', [(''p/d.bmp'', 1)])]
   \<and> well_formed [(''p/a.jpg'', [(''p/b.PNG'', 1 :: int)]), (''p/c.gif'', [(''p/d.bmp'', 1)])]"
proof -
  have run: "fst (find_duplicate_images example_env ''p'' 1 (example_world []))
     = Inr [(''p/a.jpg'', [(''p/b.PNG'', 1)]), (''p/c.gif'', [(''p/d.bmp'', 1)])]"
    by code_simp
  from run clusters_disjoint [OF run] show ?thesis by simp
qed

text \<open>
  C4, as stated, fails: the cluster count is not non-increasing in the threshold. Two
  records at distance 1 give no cluster at the threshold 0 and one cluster at the
  threshold 1, since a record without duplicates contributes no cluster.
\<close>

theorem cluster_count_can_grow:
  "(0 :: int) \<le> 1
   \<and> cluster imagehash_sub 0 [(''a'', replicate 64 False), (''b'', True # replicate 63 False)] = Inr []
   \<and> cluster imagehash_sub 1 [(''a'', replicate 64 False), (''b'', True # replicate 63 False)]
       = Inr [(''a'', [(''b'', 1)])]
   \<and> \<not> length [(''a'', [(''b'', 1 :: int)])] \<le> length ([] :: string clusters)"
  by code_simp

text \<open>
  Nor is the number of claimed records monotone: with the four records below the
  threshold 2 attaches two duplicates (to b), the threshold 3 only one (b, to a).
\<close>

lemma greedy_not_monotone_example:
  "cluster imagehash_sub 2
     [(''a'', [False, False, False, False, True, True, True]),
      (''b'', [False, False, False, False, False, False, False]),
      (''c'', [True, True, False, False, False, False, False]),
      (''d'', [False, False, True, True, False, False, False])]
     = Inr [(''b'', [(''c'', 2), (''d'', 2)])]
   \<and> cluster imagehash_sub 3
     [(''a'', [False, False, False, False, True, True, True]),
      (''b'', [False, False, False, False, False, False, False]),
      (''c'', [True, True, False, False, False, False, False]),
      (''d'', [False, False, True, True, False, False, False])]
     = Inr [(''a'', [(''b'', 3)])]"
  by code_simp

text \<open>
  C4, amended. For records with distinct paths, when the threshold t2 is at least the
  distance from the first record to every later one (as it is when t2 is at least the
  maximum pairwise distance), the clusterer returns one cluster, the first record with
  all later records as its duplicates in input order (no cluster when there is no later
  record). So at such a threshold there is at most one cluster, which is at most the
  number of clusters at any threshold t1 that yields a cluster at all.
\<close>

theorem high_threshold_single_cluster:
  assumes "distinct (map fst ((file1, hash1) # rest))"
    and "\<forall>(p, h) \<in> set rest. sub hash1 h = Inr (dist h) \<and> dist h \<le> t2"
  shows "\<exists>d2. cluster sub t2 ((file1, hash1) # rest) = Inr d2
           \<and> d2 = (if rest = [] then [] else [(file1, map (\<lambda>(p, h). (p, dist h)) rest)])
           \<and> length d2 \<le> 1
           \<and> (\<forall>t1 d1. cluster sub t1 ((file1, hash1) # rest) = Inr d1 \<and> d1 \<noteq> [] \<longrightarrow> length d2 \<le> length d1)"
proof -
  let ?d2 = "if rest = [] then [] else [(file1, map (\<lambda>(p, h). (p, dist h)) rest)]"
  have c: "cluster sub t2 ((file1, hash1) # rest) = Inr ?d2"
    using assms by (rule cluster_absorbs_all[where dist = dist])
  have l: "length ?d2 \<le> 1" by simp
  have "\<forall>t1 d1. cluster sub t1 ((file1, hash1) # rest) = Inr d1 \<and> d1 \<noteq> [] \<longrightarrow> length ?d2 \<le> length d1"
  proof (intro allI impI)
    fix t1 and d1 :: "'a clusters"
    assume "cluster sub t1 ((file1, hash1) # rest) = Inr d1 \<and> d1 \<noteq> []"
    then have "1 \<le> length d1" by (cases d1) auto
    with l show "length ?d2 \<le> length d1" by linarith
  qed
  with c l show ?thesis by blast
qed


theorem high_threshold_single_cluster_witness:
  "distinct (map fst [(''a'', [False, False]), (''b'', [True, False]), (''c'', [True, True])])
   \<and> imagehash_sub [False, False] [True, False] = Inr 1 \<and> (1 :: int) \<le> 2
   \<and> imagehash_sub [False, False] [True, True] = Inr 2 \<and> (2 :: int) \<le> 2
   \<and> cluster imagehash_sub 2 [(''a'', [False, False]), (''b'', [True, False]), (''c'', [True, True])]
       = Inr [(''a'', [(''b'', 1), (''c'', 2)])]
   \<and> cluster imagehash_sub 1 [(''a'', [False, False]), (''b'', [True, False]), (''c'', [True, True])]
       = Inr [(''a'', [(''b'', 1)])]
   \<and> length [(''a'', [(''b'', 1 :: int), (''c'', 2)])] \<le> length [(''a'', [(''b'', 1 :: int)])]"
  using high_threshold_single_cluster
    [of "''a''" "[False, False]" "[(''b'', [True, False]), (''c'', [True, True])]"
        imagehash_sub "\<lambda>h. int (length (filter id h))" 2]
  by (simp add: imagehash_sub_def cluster_def hamming_distance_def)

section \<open>Claims about the distance\<close>

text \<open>
  C3. For fingerprints a, b, c of equal bit-length, \<open>hamming_distance\<close> returns a
  non-negative integer, the number of bit positions where the two fingerprints differ;
  it is symmetric, the distance of a fingerprint to itself is 0, and the triangle
  inequality d(a,c) \<le> d(a,b) + d(b,c) holds.
\<close>

theorem hamming_distance_metric:
  assumes "length a = length b" and "length b = length c"
  shows "\<exists>dab dba dbc dac daa.
      hamming_distance imagehash_sub a b = Inr dab \<and> hamming_distance imagehash_sub b a = Inr dba \<and>
      hamming_distance imagehash_sub b c = Inr dbc \<and> hamming_distance imagehash_sub a c = Inr dac \<and>
      hamming_distance imagehash_sub a a = Inr daa \<and>
      0 \<le> dab \<and> dab = int (card {i. i < length a \<and> a ! i \<noteq> b ! i}) \<and>
      dab = dba \<and> daa = 0 \<and> dac \<le> dab + dbc"
proof -
  let ?n = "\<lambda>x y :: fingerprint. card {i. i < length x \<and> x ! i \<noteq> y ! i}"
  have ab: "imagehash_sub a b = Inr (int (?n a b))" using assms by (simp add: imagehash_sub_card)
  have ba: "imagehash_sub b a = Inr (int (?n b a))" using assms by (simp add: imagehash_sub_card)
  have bc: "imagehash_sub b c = Inr (int (?n b c))" using assms by (simp add: imagehash_sub_card)
  have ac: "imagehash_sub a c = Inr (int (?n a c))" using assms by (simp add: imagehash_sub_card)
  have aa: "imagehash_sub a a = Inr (int (?n a a))" by (simp add: imagehash_sub_card)
  have sym: "?n a b = ?n b a" using differing_sym[OF assms(1)] by simp
  have zero: "?n a a = 0" by simp
  have tri: "?n a c \<le> ?n a b + ?n b c" by (rule differing_triangle[OF assms])
  show ?thesis unfolding hamming_distance_def ab ba bc ac aa
    using sym zero tri by (intro exI conjI refl) (simp_all only: of_nat_0_le_iff of_nat_0 flip: of_nat_add, simp_all)
qed

theorem hamming_distance_metric_witness:
  "length [True, False, True] = length [False, False, True]
   \<and> length [False, False, True] = length [False, True, False]
   \<and> hamming_distance imagehash_sub [True, False, True] [False, False, True] = Inr 1
   \<and> hamming_distance imagehash_sub [False, False, True] [True, False, True] = Inr 1
   \<and> hamming_distance imagehash_sub [False, False, True] [False, True, False] = Inr 2
   \<and> hamming_distance imagehash_sub [True, False, True] [False, True, False] = Inr 3
   \<and> hamming_distance imagehash_sub [True, False, True] [True, False, True] = Inr 0"
  using hamming_distance_metric [of "[True, False, True]" "[False, False, True]" "[False, True, False]"]
  by (simp add: hamming_distance_def imagehash_sub_def)


text \<open>
  C8. For two fingerprints whose bit-lengths differ, \<open>hamming_distance\<close> returns no
  distance: it fails with \<open>IncompatibleFingerprintError\<close>.
\<close>

theorem differing_lengths_fail:
  "length a \<noteq> length b \<Longrightarrow> hamming_distance imagehash_sub a b = Inl IncompatibleFingerprintError"
  by (simp add: hamming_distance_def imagehash_sub_def)


theorem differing_lengths_fail_witness:
  "length [True] \<noteq> length [True, False]
   \<and> hamming_distance imagehash_sub [True] [True, False] = Inl IncompatibleFingerprintError"
  using differing_lengths_fail [of "[True]" "[True, False]"] by simp


section \<open>Claims about the extraction\<close>

text \<open>
  C6. A file that fails to decode does not stop the batch. For the distinct image files
  of a folder, the fingerprint table holds exactly the files that decode, in order, each
  with its hash; every file that fails is reported by one \<open>Error processing\<close> line, in
  order, and has no record; the counts add up to the number of files; no file is
  touched; and \<open>find_duplicate_images\<close> goes on to cluster the records of the table. For
  five files of which one is corrupted this gives four records and one reported failure,
  as the concrete folder below shows.
\<close>

theorem decode_failure_is_skipped:
  assumes "distinct image_files"
    and "collect_image_files ev folder_path = image_files"
  shows "\<exists>w'. extract_hashes ev image_files w = (decoded ev image_files, w')
     \<and> reported_failures (stdout w') = reported_failures (stdout w) @ failures ev image_files
     \<and> last (stdout w') = SuccessfullyProcessed (length (decoded ev image_files))
     \<and> length (decoded ev image_files) + length (failures ev image_files) = length image_files
     \<and> files w' = files w
     \<and> find_duplicate_images ev folder_path t w
         = (cluster (hash_sub ev) t (decoded ev image_files), w')"
proof -
  let ?w0 = "print (FoundImageFiles (length image_files)) w"
  obtain fh w1 where l: "extract_loop ev (length image_files) 1 image_files [] ?w0 = (fh, w1)"
    by (cases "extract_loop ev (length image_files) 1 image_files [] ?w0")
  from extract_loop_result[OF assms(1) _ l]
  have fh: "fh = decoded ev image_files"
    and rf: "reported_failures (stdout w1) = reported_failures (stdout ?w0) @ failures ev image_files"
    and fs: "files w1 = files ?w0"
    by auto
  let ?w' = "print (SuccessfullyProcessed (length fh)) w1"
  have e: "extract_hashes ev image_files w = (decoded ev image_files, ?w')"
    using l fh by (simp add: extract_hashes_def)
  have r: "reported_failures (stdout ?w') = reported_failures (stdout w) @ failures ev image_files"
    using rf by (simp add: print_def reported_failures_def)
  have la: "last (stdout ?w') = SuccessfullyProcessed (length (decoded ev image_files))"
    using fh by (simp add: print_def)
  have f: "files ?w' = files w" using fs by (simp add: print_def)
  have c: "find_duplicate_images ev folder_path t w
         = (cluster (hash_sub ev) t (decoded ev image_files), ?w')"
    using e assms(2) by (simp add: find_duplicate_images_def)
  from e r la f c length_decoded_failures[of ev image_files] show ?thesis by blast
qed

theorem decode_failure_is_skipped_witness:
  "distinct (collect_image_files example_env ''p'')
   \<and> length (collect_image_files example_env ''p'') = 5
   \<and> failures example_env (collect_image_files example_env ''p'') = [(''p/bad.jpg'', OSError)]
   \<and> length (decoded example_env (collect_image_files example_env ''p'')) = 4
   \<and> reported_failures (stdout (snd (find_duplicate_images example_env ''p'' 1 (example_world []))))
       = [(''p/bad.jpg'', OSError)]
   \<and> fst (find_duplicate_images example_env ''p'' 1 (example_world []))
       = cluster imagehash_sub 1 (decoded example_env (collect_image_files example_env ''p''))
   \<and> cluster imagehash_sub 1 (decoded example_env (collect_image_files example_env ''p''))
       = Inr [(''p/a.jpg'', [(''p/b.PNG'', 1)]), (''p/c.gif'', [(''p/d.bmp'', 1)])]"
proof -
  have d: "distinct (collect_image_files example_env ''p'')" by code_simp
  have n: "length (collect_image_files example_env ''p'') = 5" by code_simp
  have f: "failures example_env (collect_image_files example_env ''p'') = [(''p/bad.jpg'', OSError)]"
    by code_simp
  have c: "cluster imagehash_sub 1 (decoded example_env (collect_image_files example_env ''p''))
       = Inr [(''p/a.jpg'', [(''p/b.PNG'', 1)]), (''p/c.gif'', [(''p/d.bmp'', 1)])]"
    by code_simp
  have h: "hash_sub example_env = imagehash_sub" by (simp add: example_env_def)
  have o: "reported_failures (stdout (example_world [])) = []"
    by (simp add: example_world_def reported_failures_def)
  from decode_failure_is_skipped [OF d refl, of "example_world []" 1]
  show ?thesis using d n f c h o by auto
qed

section \<open>Claims about the deletion\<close>

text \<open>
  C7. In the deletion (lines 135-150) a failure for one file, a missing file or one that
  may not be removed, is caught and reported and the loop goes on: every listed file gets
  exactly one line, \<open>Deleted\<close> or \<open>Error deleting\<close>, in order, and afterwards no listed
  file is left that could still be removed. The files with a \<open>Deleted\<close> line are the
  files actually removed (there before, gone after); every other file is unchanged. The
  summary reports the number of the removed files and, as the space freed, the sum of
  the sizes of exactly the removed files.
\<close>

theorem deletion_total_counts_removed_files:
  assumes "delete_files files_to_delete w = w'"
  shows "\<exists>report.
       stdout w' = stdout w @ report @
         [EqualsRule,
          SuccessfullyDeleted (length (removed_files (files w) (files w') files_to_delete)),
          TotalSpaceFreed (sum_list (map (size_in (files w))
             (removed_files (files w) (files w') files_to_delete)))]
     \<and> map report_path report = map Some files_to_delete
     \<and> set (deleted_paths report) = set (removed_files (files w) (files w') files_to_delete)
     \<and> (\<forall>p. p \<notin> set (removed_files (files w) (files w') files_to_delete) \<longrightarrow> files w' p = files w p)
     \<and> (\<forall>p \<in> set files_to_delete. \<not> can_remove (files w') p)"
proof -
  let ?S = "{p \<in> set files_to_delete. can_remove (files w) p}"
  let ?R = "removed_files (files w) (files w') files_to_delete"
  obtain c t w1 where l: "delete_loop files_to_delete 0 0 w = (c, t, w1)"
    by (cases "delete_loop files_to_delete 0 0 w") auto
  from delete_loop_result[OF l] obtain report where
    f1: "files w1 = (\<lambda>p. if p \<in> set files_to_delete \<and> can_remove (files w) p then None else files w p)"
    and c: "c = card ?S" and t: "t = sum (size_in (files w)) ?S"
    and out: "stdout w1 = stdout w @ report" and rp: "map report_path report = map Some files_to_delete"
    and dp: "set (deleted_paths report) = ?S"
    by auto
  have w': "w' = print (TotalSpaceFreed t) (print (SuccessfullyDeleted c) (print EqualsRule w1))"
    using assms l by (simp add: delete_files_def)
  have f: "files w' = files w1" unfolding w' by (simp add: print_def)
  have fw': "\<And>p. files w' p = (if p \<in> set files_to_delete \<and> can_remove (files w) p then None else files w p)"
    using f f1 by simp
  have gone: "\<And>p. (files w p \<noteq> None \<and> files w' p = None) \<longleftrightarrow> (p \<in> set files_to_delete \<and> can_remove (files w) p)"
    using fw' by (auto simp: can_remove_def split: option.splits)
  have R: "?R = filter (\<lambda>p. can_remove (files w) p) (remdups files_to_delete)"
    unfolding removed_files_def using gone by (intro filter_cong) auto
  have setR: "set ?R = ?S" unfolding R by auto
  have dR: "distinct ?R" unfolding R by simp
  have cR: "c = length ?R" unfolding c setR[symmetric] using dR by (simp add: distinct_card)
  have tR: "t = sum_list (map (size_in (files w)) ?R)"
    unfolding t setR[symmetric] using dR by (simp add: sum_list_distinct_conv_sum_set)
  have sw: "stdout w' = stdout w1 @ [EqualsRule, SuccessfullyDeleted c, TotalSpaceFreed t]"
    by (simp add: w' print_def)
  have o: "stdout w' = stdout w @ report @ [EqualsRule, SuccessfullyDeleted (length ?R),
      TotalSpaceFreed (sum_list (map (size_in (files w)) ?R))]"
    using sw out cR tR by simp
  have keep: "\<forall>p. p \<notin> set ?R \<longrightarrow> files w' p = files w p"
    using setR fw' by auto
  have tried: "\<forall>p \<in> set files_to_delete. \<not> can_remove (files w') p"
    using fw' by (auto simp: can_remove_def)
  from o rp dp setR keep tried show ?thesis by blast
qed

theorem deletion_total_counts_removed_files_witness:
  "stdout (delete_files example_deletions (example_world [])) =
     [Deleted ''p/b.PNG'', ErrorDeleting ''p/gone.jpg'' FileNotFoundError,
      ErrorDeleting ''p/d.bmp'' PermissionError, Deleted ''p/c.gif'',
      ErrorDeleting ''p/b.PNG'' FileNotFoundError,
      EqualsRule, SuccessfullyDeleted 2, TotalSpaceFreed 100]
   \<and> removed_files (files (example_world []))
        (files (delete_files example_deletions (example_world []))) example_deletions
       = [''p/c.gif'', ''p/b.PNG'']
   \<and> sum_list (map (size_in (files (example_world []))) [''p/c.gif'', ''p/b.PNG'']) = 100"
proof -
  let ?w' = "delete_files example_deletions (example_world [])"
  let ?R = "removed_files (files (example_world [])) (files ?w') example_deletions"
  have r: "?R = [''p/c.gif'', ''p/b.PNG'']" by code_simp
  have s: "sum_list (map (size_in (files (example_world []))) [''p/c.gif'', ''p/b.PNG'']) = 100"
    by code_simp
  have o: "stdout ?w' =
     [Deleted ''p/b.PNG'', ErrorDeleting ''p/gone.jpg'' FileNotFoundError,
      ErrorDeleting ''p/d.bmp'' PermissionError, Deleted ''p/c.gif'',
      ErrorDeleting ''p/b.PNG'' FileNotFoundError,
      EqualsRule, SuccessfullyDeleted 2, TotalSpaceFreed 100]"
    by code_simp
  from deletion_total_counts_removed_files [OF refl, of example_deletions "example_world []"]
  obtain report where "stdout ?w' = stdout (example_world []) @ report @
         [EqualsRule, SuccessfullyDeleted (length ?R),
          TotalSpaceFreed (sum_list (map (size_in (files (example_world []))) ?R))]"
    by blast
  with r s o show ?thesis by simp
qed




text \<open>
  An answer \<open>YES\<close> between a no-break space (code 160) and a next-line character (code
  133) is stripped and lowercased to \<open>yes\<close>, and the duplicate is removed.
\<close>

lemma padded_yes_deletes:
  "py_lower (py_strip (CHR 0xA0 # ''YES'' @ [CHR 0x85])) = ''yes''
   \<and> files (snd (delete_duplicates [(''p/a.jpg'', [(''p/b.PNG'', 1)])] True
        (example_world (CHR 0xA0 # ''YES'' @ [CHR 0x85, CHR 0x0D, CHR 0x0A])))) ''p/b.PNG'' = None
   \<and> files (example_world (CHR 0xA0 # ''YES'' @ [CHR 0x85, CHR 0x0D, CHR 0x0A])) ''p/b.PNG''
       = Some \<lparr>st_size = 70, removable = True\<rparr>"
  by code_simp

section \<open>Claims about the command line\<close>

text \<open>
  An argument that is neither \<open>--auto\<close> nor an integer is answered by the warning, and the
  loop goes on with the threshold it had.
\<close>

lemma unparsable_argument_keeps_threshold:
  "arg \<noteq> ''--auto'' \<Longrightarrow> py_int arg = Inl e \<Longrightarrow>
   parse_args (arg # rest) similarity_threshold interactive w
     = parse_args rest similarity_threshold interactive (print (InvalidThresholdWarning arg) w)"
  by simp


text \<open>Suffixes of file names, and of a path with a trailing separator.\<close>

lemma path_suffix_examples:
  "path_suffix ''a.b.JPG'' = ''.JPG'' \<and> path_suffix ''.bashrc'' = [] \<and> path_suffix ''a.'' = []
   \<and> path_suffix ''..jpg'' = ''.jpg'' \<and> path_suffix ''d.x/a.png/'' = ''.png''
   \<and> py_lower (path_suffix ''b.PNG'') \<in> image_extensions"
  by code_simp

text \<open>
  What \<open>int\<close> accepts: the separator with code 28 is whitespace for \<open>strip\<close> but not for
  \<open>int\<close>, the no-break space is whitespace for both, and a literal may have 4300 digits
  but not more.
\<close>

lemma py_int_examples:
  "py_int [CHR 0x1C, CHR ''7''] = Inl ValueError
   \<and> py_int [CHR 0xA0, CHR ''7'', CHR 0x85] = Inr 7
   \<and> py_int '' -1_0 '' = Inr (- 10)
   \<and> py_int ''1__0'' = Inl ValueError
   \<and> py_int ''abc'' = Inl ValueError
   \<and> py_int ''3'' = Inr 3"
  by code_simp

lemma py_int_too_many_digits:
  "int_max_str_digits < length (filter is_digit (int_strip arg)) \<Longrightarrow> py_int arg = Inl ValueError"
  by (simp add: py_int_def)

lemma py_int_4301_digits: "py_int (replicate 4301 (CHR ''1'')) = Inl ValueError"
  by (rule py_int_too_many_digits)
     (simp add: int_strip_def is_int_space_def is_digit_def int_max_str_digits_def)

text \<open>
  C10. With the arguments \<open>3\<close> and \<open>abc\<close> after the folder, the warning for \<open>abc\<close> is
  printed, whose text says that the default 5 is used, but the threshold stays 3, the
  number given by the argument before; the scan then runs with 3.
\<close>

theorem warning_says_default_but_threshold_stays:
  "fst (parse_args [''3'', ''abc''] 5 True (example_world [])) = 3
   \<and> stdout (snd (snd (parse_args [''3'', ''abc''] 5 True (example_world []))))
       = [InvalidThresholdWarning ''abc'']
   \<and> take 3 (stdout (snd (main example_env [''imagefinder.py'', ''p'', ''3'', ''abc''] (example_world ''n''))))
       = [InvalidThresholdWarning ''abc'', ScanningFolder ''p'', SimilarityThresholdLine 3]
   \<and> fst (main example_env [''imagefinder.py'', ''p'', ''3'', ''abc''] (example_world ''n'')) = Returned"
  by code_simp

end
